theory Spec2Isabelle
  imports Complex_Main "HOL-Library.AList"
begin

section \<open>The item collect game: actions, replicated states, reactor and spawn system\<close>

text \<open>
  A shallow embedding of \<^verbatim>\<open>src/ItemCollectGame.tsx\<close>. The file defines two actions
  (\<^verbatim>\<open>ItemActions.spawn\<close>, \<^verbatim>\<open>ItemActions.destroy\<close>), two replicated states with their
  receptors (\<^verbatim>\<open>ScoreState\<close>, \<^verbatim>\<open>ItemState\<close>), the reactor of \<^verbatim>\<open>ItemState\<close> with the
  component \<^verbatim>\<open>ItemReactor\<close>, and the system \<^verbatim>\<open>ItemSpawnSystem\<close>.

  What the file imports from the engine is not part of it. Values the code reads from the
  engine (the network, lookups by name and by UUID, random numbers, the identity of the
  local user) are fields of the record \<open>Engine\<close>, an input of every operation. State the
  code writes (the two states, the components it sets on entities, the actions it
  dispatches) is the record \<open>Process\<close>, passed in and returned.
\<close>

subsection \<open>Identifiers and engine enumerations\<close>

type_synonym EntityUUID = string
type_synonym UserID = string

text \<open>An \<^verbatim>\<open>Entity\<close> is a number; \<^verbatim>\<open>UndefinedEntity\<close> is the falsy entity 0.\<close>

type_synonym Entity = nat

definition UndefinedEntity :: Entity where
  "UndefinedEntity = 0"

type_synonym Vector3 = "real \<times> real \<times> real"
type_synonym Quaternion = "real \<times> real \<times> real \<times> real"

datatype BodyTypes = Fixed | Dynamic | Kinematic

datatype Shapes = Sphere | Capsule | Cylinder | Box | Plane | Mesh

datatype CollisionGroups = Default | Avatars | Ground | Trigger

datatype GeometryTypeEnum = BoxGeometry | SphereGeometry | CylinderGeometry | PlaneGeometry

subsection \<open>Actions\<close>

definition ValidItemColors :: "string list" where
  "ValidItemColors =
     [''red'', ''blue'', ''green'', ''yellow'', ''purple'', ''orange'', ''pink'', ''brown'']"

text \<open>
  An action is one of the two actions of the file or any other action of the engine, known
  by its type string only. \<^verbatim>\<open>parentUUID\<close> is optional in the model because the spawn system
  can fill it with \<^verbatim>\<open>undefined\<close>; \<^verbatim>\<open>color\<close> is any string on the wire.
\<close>

text \<open>
  How the proxy of a state reads \<^verbatim>\<open>state[key]\<close>. An ordinary key gives the nested state of
  that key of the record, whose value is the record's own entry and undefined when the
  record has none. The member \<^verbatim>\<open>ornull\<close> gives the state itself. Any other member of the
  proxy (\<^verbatim>\<open>value\<close>, \<^verbatim>\<open>keys\<close>, \<^verbatim>\<open>set\<close>, ...) gives something that is no state: its
  \<^verbatim>\<open>.value\<close> is undefined and calling its \<^verbatim>\<open>.set\<close> throws. Which keys are ordinary is the
  state library's matter (a name the prototype of the record answers, such as
  \<^verbatim>\<open>constructor\<close>, is not); the properties of the receptors below are about ordinary keys
  and say so.
\<close>

datatype StateKey = Nested | Self | NoState

datatype Action =
    Spawn (parentUUID: "EntityUUID option") (entityUUID: EntityUUID) (color: string)
      (position: Vector3) (rotation: Quaternion)
  | Destroy (entityUUID: EntityUUID) (userID: UserID)
  | OtherAction string

record Network =
  isHosting :: bool

text \<open>
  The engine as the code reads it. \<open>spawnObject_matches\<close> is the shape of the base action
  \<^verbatim>\<open>SpawnObjectActions.spawnObject\<close> on the one field the code can leave undefined; the
  validators \<^verbatim>\<open>matchesEntityUUID\<close> and \<^verbatim>\<open>matchesUserID\<close> of the other fields accept every
  string, and those fields are strings here. \<open>stateKey\<close> is the state library's reading of
  a key, as described above.
\<close>

record Engine =
  worldNetwork :: "Network option"
  entitiesByName :: "string \<Rightarrow> Entity list option"
  getAncestorWithSceneComponent :: "Entity \<Rightarrow> Entity"
  getUUIDComponent :: "Entity \<Rightarrow> EntityUUID option"
  generateUUID :: EntityUUID
  random_color :: real
  random_x :: real
  random_z :: real
  random_rotation :: Quaternion
  useEntityByUUID :: "EntityUUID \<Rightarrow> Entity"
  getSelfAvatarEntity :: Entity
  instance_userID :: UserID
  spawnObject_matches :: "EntityUUID option \<Rightarrow> bool"
  stateKey :: "string \<Rightarrow> StateKey"

text \<open>
  \<^verbatim>\<open>color: matches.literals(...ValidItemColors)\<close> on top of the base shape: an action matches
  \<^verbatim>\<open>ItemActions.spawn\<close> when it is a spawn, its colour is one of the literals and the base
  shape accepts it.
\<close>

definition ItemActions_spawn_matches :: "Engine \<Rightarrow> Action \<Rightarrow> bool" where
  "ItemActions_spawn_matches env action =
     (case action of
        Spawn p e c pos rot \<Rightarrow> c \<in> set ValidItemColors \<and> spawnObject_matches env p
      | Destroy e u \<Rightarrow> False
      | OtherAction t \<Rightarrow> False)"

definition ItemActions_destroy_matches :: "Action \<Rightarrow> bool" where
  "ItemActions_destroy_matches action =
     (case action of
        Spawn p e c pos rot \<Rightarrow> False
      | Destroy e u \<Rightarrow> True
      | OtherAction t \<Rightarrow> False)"

datatype error = ShapeMismatch | TypeError

text \<open>
  The action creators. A creator casts its argument to the action's shape and throws when
  the cast fails. The colour handed to \<^verbatim>\<open>ItemActions.spawn\<close> is the result of an array
  read, undefined out of range.
\<close>

definition ItemActions_spawn ::
  "Engine \<Rightarrow> EntityUUID option \<Rightarrow> EntityUUID \<Rightarrow> string option \<Rightarrow> Vector3 \<Rightarrow> Quaternion
    \<Rightarrow> error + Action" where
  "ItemActions_spawn env p e c pos rot =
     (case c of
        None \<Rightarrow> Inl ShapeMismatch
      | Some col \<Rightarrow>
          if ItemActions_spawn_matches env (Spawn p e col pos rot)
          then Inr (Spawn p e col pos rot)
          else Inl ShapeMismatch)"

definition ItemActions_destroy :: "EntityUUID \<Rightarrow> UserID \<Rightarrow> Action" where
  "ItemActions_destroy e u = Destroy e u"

text \<open>
  \<^verbatim>\<open>action.receive(receptor)\<close>: the receptor runs on the actions that match the shape of
  the action and on no other. A receptor returns the new value of its state, or throws.
\<close>

definition receive ::
  "(Action \<Rightarrow> bool) \<Rightarrow> (Action \<Rightarrow> 'st \<Rightarrow> error + 'st) \<Rightarrow> Action \<Rightarrow> 'st \<Rightarrow> error + 'st" where
  "receive matchesShape actionReceptor action state =
     (if matchesShape action then actionReceptor action state else Inr state)"

subsection \<open>Components of an entity\<close>

record TriggerEntry =
  onEnter :: "string option"
  onExit :: "string option"
  target :: EntityUUID

record Collider =
  shape :: Shapes
  collisionLayer :: CollisionGroups
  collisionMask :: CollisionGroups

text \<open>
  The callback the reactor registers is a closure over \<^verbatim>\<open>props.entityUUID\<close>; it is kept as
  data and run by \<open>runCallback\<close> below.
\<close>

datatype Callback = OnCollectItem EntityUUID

text \<open>The components the file sets, per entity. A component that is not set is absent.\<close>

record Components =
  ItemComponent :: bool
  VisibleComponent :: "bool option"
  RigidBodyComponent :: "BodyTypes option"
  NameComponent :: "string option"
  TriggerComponent :: "TriggerEntry list option"
  CallbackComponent :: "(string \<times> Callback) list"
  TransformScale :: "Vector3 option"
  ColliderComponent :: "Collider option"
  PrimitiveGeometryComponent :: "GeometryTypeEnum option"
  ShadowComponent :: bool

definition noComponents :: Components where
  "noComponents =
     \<lparr>ItemComponent = False, VisibleComponent = None, RigidBodyComponent = None,
      NameComponent = None, TriggerComponent = None, CallbackComponent = [],
      TransformScale = None, ColliderComponent = None, PrimitiveGeometryComponent = None,
      ShadowComponent = False\<rparr>"

type_synonym ECS = "(Entity \<times> Components) list"

definition getComponents :: "ECS \<Rightarrow> Entity \<Rightarrow> Components" where
  "getComponents w entity = (case map_of w entity of None \<Rightarrow> noComponents | Some c \<Rightarrow> c)"

definition setComponent :: "Entity \<Rightarrow> (Components \<Rightarrow> Components) \<Rightarrow> ECS \<Rightarrow> ECS" where
  "setComponent entity f w = AList.update entity (f (getComponents w entity)) w"

definition setCallback :: "Entity \<Rightarrow> string \<Rightarrow> Callback \<Rightarrow> ECS \<Rightarrow> ECS" where
  "setCallback entity name cb w =
     setComponent entity
       (\<lambda>c. c\<lparr>CallbackComponent := AList.update name cb (CallbackComponent c)\<rparr>) w"

text \<open>\<^verbatim>\<open>defineQuery([ItemComponent])\<close>: the entities that carry the item component.\<close>

definition itemQuery :: "ECS \<Rightarrow> Entity list" where
  "itemQuery w = map fst (filter (\<lambda>p. ItemComponent (snd p)) w)"

subsection \<open>The process\<close>

text \<open>
  The value of a state. Both states start as the empty record. A JavaScript record with
  string keys is an association list in insertion order; \<open>AList.update\<close> overwrites a
  present key in place and appends an absent one, as a set on the record does. A write
  through the member \<^verbatim>\<open>ornull\<close> replaces the whole value, and what the receptors write
  there is a string.
\<close>

datatype 'v StateValue = RecordValue "(string \<times> 'v) list" | StringValue string

fun recordOf :: "'v StateValue \<Rightarrow> (string \<times> 'v) list" where
  "recordOf (RecordValue r) = r"
| "recordOf (StringValue str) = []"

text \<open>
  \<open>mounted\<close> is the reactor's memory: for every mounted \<^verbatim>\<open>ItemReactor\<close> the value of
  \<^verbatim>\<open>entity\<close> its effect last ran with (the dependency list \<^verbatim>\<open>[entity]\<close>). \<open>actions\<close> is
  the list of dispatched actions.
\<close>

record Process =
  ScoreState_value :: "nat StateValue"
  ItemState_value :: "string StateValue"
  ecs :: ECS
  mounted :: "(EntityUUID \<times> Entity) list"
  actions :: "Action list"

text \<open>The entries of the two states; none when the value is no record.\<close>

definition ScoreState :: "Process \<Rightarrow> (UserID \<times> nat) list" where
  "ScoreState s = recordOf (ScoreState_value s)"

definition ItemState :: "Process \<Rightarrow> (EntityUUID \<times> string) list" where
  "ItemState s = recordOf (ItemState_value s)"

definition initialProcess :: Process where
  "initialProcess =
     \<lparr>ScoreState_value = RecordValue [], ItemState_value = RecordValue [], ecs = [],
      mounted = [], actions = []\<rparr>"

definition dispatchAction :: "Action \<Rightarrow> Process \<Rightarrow> Process" where
  "dispatchAction action s = s\<lparr>actions := actions s @ [action]\<rparr>"

subsection \<open>Receptors\<close>

text \<open>
  Counts are JavaScript numbers. Below \<open>2 ^ 53\<close> adding 1 is exact; at \<open>2 ^ 53\<close> the sum
  rounds back to \<open>2 ^ 53\<close>. Counts start at 1 and grow by this addition, so none is
  larger.
\<close>

definition js_add1 :: "nat \<Rightarrow> nat" where
  "js_add1 val = (if val < 2 ^ 53 then val + 1 else val)"

text \<open>
  The receptor of \<open>ScoreState\<close>, by what \<^verbatim>\<open>state[action.userID]\<close> is.

  A nested state of a record: its \<^verbatim>\<open>.value\<close> is undefined when the key is absent, and the
  count is set to 1; otherwise the count is set to \<^verbatim>\<open>val + 1\<close>. A state whose value is a
  string has no nested states: the read gives undefined and \<^verbatim>\<open>.value\<close> throws.

  The state itself: its \<^verbatim>\<open>.value\<close> is the whole value, never undefined, so the whole value
  is set to \<^verbatim>\<open>val + 1\<close>: the string \<^verbatim>\<open>[object Object]1\<close> for a record, the string with
  \<^verbatim>\<open>1\<close> appended for a string.

  No state: \<^verbatim>\<open>.value\<close> is undefined (or throws), and \<^verbatim>\<open>.set(1)\<close> throws. Nothing is
  written.
\<close>

definition ScoreState_onCollectItem ::
  "Engine \<Rightarrow> Action \<Rightarrow> nat StateValue \<Rightarrow> error + nat StateValue" where
  "ScoreState_onCollectItem env =
     receive ItemActions_destroy_matches
       (\<lambda>action state.
          case stateKey env (userID action) of
            Nested \<Rightarrow>
              (case state of
                 RecordValue r \<Rightarrow>
                   (case map_of r (userID action) of
                      None \<Rightarrow> Inr (RecordValue (AList.update (userID action) 1 r))
                    | Some val \<Rightarrow> Inr (RecordValue (AList.update (userID action) (js_add1 val) r)))
               | StringValue str \<Rightarrow> Inl TypeError)
          | Self \<Rightarrow>
              (case state of
                 RecordValue r \<Rightarrow> Inr (StringValue ''[object Object]1'')
               | StringValue str \<Rightarrow> Inr (StringValue (str @ ''1'')))
          | NoState \<Rightarrow> Inl TypeError)"

text \<open>
  The receptor of \<open>ItemState\<close>: \<^verbatim>\<open>state[action.entityUUID].set(action.color)\<close>, read the
  same way.
\<close>

definition ItemState_onCollectItem ::
  "Engine \<Rightarrow> Action \<Rightarrow> string StateValue \<Rightarrow> error + string StateValue" where
  "ItemState_onCollectItem env =
     receive (ItemActions_spawn_matches env)
       (\<lambda>action state.
          case stateKey env (entityUUID action) of
            Nested \<Rightarrow>
              (case state of
                 RecordValue r \<Rightarrow>
                   Inr (RecordValue (AList.update (entityUUID action) (color action) r))
               | StringValue str \<Rightarrow> Inl TypeError)
          | Self \<Rightarrow> Inr (StringValue (color action))
          | NoState \<Rightarrow> Inl TypeError)"

text \<open>
  The value of a state after its receptor has run on an action: what the receptor
  returned, or the old value when it threw (a receptor throws before it writes).
\<close>

definition settle :: "error + 'st \<Rightarrow> 'st \<Rightarrow> 'st" where
  "settle result state = (case result of Inl e \<Rightarrow> state | Inr state' \<Rightarrow> state')"

text \<open>Applying an incoming action runs the receptors of both states on it.\<close>

definition applyAction :: "Engine \<Rightarrow> Action \<Rightarrow> Process \<Rightarrow> Process" where
  "applyAction env action s =
     s\<lparr>ScoreState_value :=
         settle (ScoreState_onCollectItem env action (ScoreState_value s)) (ScoreState_value s),
       ItemState_value :=
         settle (ItemState_onCollectItem env action (ItemState_value s)) (ItemState_value s)\<rparr>"

text \<open>
  Modelled from the spec: \<^verbatim>\<open>currentScore(userID)\<close> is not in the source, which never reads
  a score; the spec reads an absent key as 0.
\<close>

definition currentScore :: "(UserID \<times> nat) list \<Rightarrow> UserID \<Rightarrow> nat" where
  "currentScore state u = (case map_of state u of None \<Rightarrow> 0 | Some val \<Rightarrow> val)"

subsection \<open>The reactor\<close>

text \<open>The callback of an item: the body of the closure, for the item \<open>uuid\<close>.\<close>

definition onCollectItem :: "Engine \<Rightarrow> EntityUUID \<Rightarrow> Entity \<Rightarrow> Entity \<Rightarrow> Process \<Rightarrow> Process" where
  "onCollectItem env uuid triggerEntity otherEntity s =
     (if otherEntity \<noteq> getSelfAvatarEntity env then s
      else dispatchAction (ItemActions_destroy uuid (instance_userID env)) s)"

fun runCallback :: "Engine \<Rightarrow> Callback \<Rightarrow> Entity \<Rightarrow> Entity \<Rightarrow> Process \<Rightarrow> Process" where
  "runCallback env (OnCollectItem uuid) triggerEntity otherEntity s =
     onCollectItem env uuid triggerEntity otherEntity s"

text \<open>
  The effect of \<^verbatim>\<open>ItemReactor\<close>, in the order of the source. \<^verbatim>\<open>colliderEntity\<close> is the
  entity itself.
\<close>

definition ItemReactor_effect :: "EntityUUID \<Rightarrow> Entity \<Rightarrow> ECS \<Rightarrow> ECS" where
  "ItemReactor_effect uuid entity w =
     (if entity = UndefinedEntity then w
      else
        let w1 = setComponent entity (\<lambda>c. c\<lparr>ItemComponent := True\<rparr>) w;
            w2 = setComponent entity (\<lambda>c. c\<lparr>VisibleComponent := Some True\<rparr>) w1;
            w3 = setComponent entity (\<lambda>c. c\<lparr>RigidBodyComponent := Some Fixed\<rparr>) w2;
            w4 = setComponent entity (\<lambda>c. c\<lparr>NameComponent := Some ''item''\<rparr>) w3;
            w5 = setComponent entity
                   (\<lambda>c. c\<lparr>TriggerComponent :=
                      Some [\<lparr>onEnter = Some ''onCollectItem'', onExit = None, target = ''''\<rparr>]\<rparr>) w4;
            w6 = setCallback entity ''onCollectItem'' (OnCollectItem uuid) w5;
            colliderEntity = entity;
            w7 = setComponent colliderEntity
                   (\<lambda>c. c\<lparr>TransformScale := Some (1 / 4, 1 / 4, 1 / 4)\<rparr>) w6;
            w8 = setComponent colliderEntity
                   (\<lambda>c. c\<lparr>ColliderComponent :=
                      Some \<lparr>shape = Sphere, collisionLayer = Default, collisionMask = Avatars\<rparr>\<rparr>) w7;
            w9 = setComponent colliderEntity
                   (\<lambda>c. c\<lparr>PrimitiveGeometryComponent := Some SphereGeometry\<rparr>) w8
        in setComponent colliderEntity (\<lambda>c. c\<lparr>ShadowComponent := True\<rparr>) w9)"

text \<open>
  One render of \<^verbatim>\<open>ItemReactor\<close> for \<open>uuid\<close>: the effect runs when the reactor is mounted
  and whenever \<^verbatim>\<open>entity\<close> has changed since its last run.
\<close>

definition ItemReactor :: "Engine \<Rightarrow> (EntityUUID \<times> Entity) list \<Rightarrow> EntityUUID \<Rightarrow> ECS \<Rightarrow> ECS" where
  "ItemReactor env deps uuid w =
     (let entity = useEntityByUUID env uuid
      in if map_of deps uuid = Some entity then w else ItemReactor_effect uuid entity w)"

text \<open>
  The reactor of \<^verbatim>\<open>ItemState\<close>: one \<^verbatim>\<open>ItemReactor\<close> per key, in the order of the keys. A
  reactor whose key is gone is unmounted; the effect has no cleanup. When the value of the
  state is no record, \<^verbatim>\<open>.keys\<close> is undefined and the render throws: no effect runs and no
  \<^verbatim>\<open>ItemReactor\<close> stays mounted.
\<close>

definition ItemState_reactor :: "Engine \<Rightarrow> Process \<Rightarrow> Process" where
  "ItemState_reactor env s =
     (let items = map fst (ItemState s)
      in s\<lparr>ecs := foldl (\<lambda>w uuid. ItemReactor env (mounted s) uuid w) (ecs s) items,
           mounted := map (\<lambda>uuid. (uuid, useEntityByUUID env uuid)) items\<rparr>)"

subsection \<open>The spawn system\<close>

definition randFloat :: "real \<Rightarrow> real \<Rightarrow> real \<Rightarrow> real" where
  "randFloat r low high = low + r * (high - low)"

text \<open>\<^verbatim>\<open>ValidItemColors[Math.floor(Math.random() * ValidItemColors.length)]\<close>\<close>

definition pickColor :: "real \<Rightarrow> string option" where
  "pickColor r =
     (let i = \<lfloor>r * real (length ValidItemColors)\<rfloor>
      in if 0 \<le> i \<and> i < int (length ValidItemColors)
         then Some (ValidItemColors ! nat i) else None)"

text \<open>\<^verbatim>\<open>worldNetwork?.isHosting\<close>\<close>

definition isHostingWorld :: "Engine \<Rightarrow> bool" where
  "isHostingWorld env = (case worldNetwork env of None \<Rightarrow> False | Some n \<Rightarrow> isHosting n)"

text \<open>\<^verbatim>\<open>NameComponent.entitiesByName['platform']?.[0]\<close>\<close>

definition platformEntity :: "Engine \<Rightarrow> Entity option" where
  "platformEntity env =
     (case entitiesByName env ''platform'' of
        None \<Rightarrow> None
      | Some es \<Rightarrow> (case es of [] \<Rightarrow> None | e # rest \<Rightarrow> Some e))"

definition ItemSpawnSystem_execute :: "Engine \<Rightarrow> Process \<Rightarrow> error + Process" where
  "ItemSpawnSystem_execute env s =
     (let itemEntities = itemQuery (ecs s)
      in if itemEntities \<noteq> [] then Inr s
         else if \<not> isHostingWorld env then Inr s
         else
           let col = pickColor (random_color env)
           in case platformEntity env of
                None \<Rightarrow> Inr s
              | Some platform \<Rightarrow>
                  if platform = UndefinedEntity then Inr s
                  else
                    let rootSceneEntity = getAncestorWithSceneComponent env platform;
                        parent = getUUIDComponent env rootSceneEntity
                    in (case ItemActions_spawn env parent (generateUUID env) col
                               (randFloat (random_x env) (-10) 10, 1 / 2,
                                randFloat (random_z env) (-10) 10)
                               (random_rotation env) of
                          Inl e \<Rightarrow> Inl e
                        | Inr action \<Rightarrow> Inr (dispatchAction action s)))"

subsection \<open>Events of a process\<close>

text \<open>
  What happens on a process: a tick of the spawn system, an incoming action, a pass of the
  reactor, and an overlap reported to the callback of the item \<open>uuid\<close>. Every event
  comes with the engine as it is at that moment. The engine also writes components itself
  (it creates and removes entities, and its other systems set components): such a write
  replaces the component store. An error thrown by a tick ends the run.
\<close>

datatype Event =
    Tick
  | Incoming Action
  | React
  | Overlap EntityUUID Entity Entity
  | EngineWrites ECS

fun step :: "Engine \<Rightarrow> Event \<Rightarrow> Process \<Rightarrow> error + Process" where
  "step env Tick s = ItemSpawnSystem_execute env s"
| "step env (Incoming action) s = Inr (applyAction env action s)"
| "step env React s = Inr (ItemState_reactor env s)"
| "step env (Overlap uuid triggerEntity otherEntity) s =
     Inr (runCallback env (OnCollectItem uuid) triggerEntity otherEntity s)"
| "step env (EngineWrites w) s = Inr (s\<lparr>ecs := w\<rparr>)"

fun run :: "(Engine \<times> Event) list \<Rightarrow> Process \<Rightarrow> error + Process" where
  "run [] s = Inr s"
| "run (ev # evs) s =
     (case step (fst ev) (snd ev) s of Inl e \<Rightarrow> Inl e | Inr s' \<Rightarrow> run evs s')"

subsection \<open>Notions the properties are stated with\<close>

definition isSpawn :: "Action \<Rightarrow> bool" where
  "isSpawn action =
     (case action of
        Spawn p e c pos rot \<Rightarrow> True
      | Destroy e u \<Rightarrow> False
      | OtherAction t \<Rightarrow> False)"

text \<open>What the effect of \<^verbatim>\<open>ItemReactor\<close> for \<open>uuid\<close> writes to the components of its entity.\<close>

definition configure :: "EntityUUID \<Rightarrow> Components \<Rightarrow> Components" where
  "configure uuid c =
     c\<lparr>ItemComponent := True,
       VisibleComponent := Some True,
       RigidBodyComponent := Some Fixed,
       NameComponent := Some ''item'',
       TriggerComponent :=
         Some [\<lparr>onEnter = Some ''onCollectItem'', onExit = None, target = ''''\<rparr>],
       CallbackComponent :=
         AList.update ''onCollectItem'' (OnCollectItem uuid) (CallbackComponent c),
       TransformScale := Some (1 / 4, 1 / 4, 1 / 4),
       ColliderComponent :=
         Some \<lparr>shape = Sphere, collisionLayer = Default, collisionMask = Avatars\<rparr>,
       PrimitiveGeometryComponent := Some SphereGeometry,
       ShadowComponent := True\<rparr>"

text \<open>The item configuration, read off the components of an entity.\<close>

definition itemConfigured :: "EntityUUID \<Rightarrow> Components \<Rightarrow> bool" where
  "itemConfigured uuid c =
     (ItemComponent c
      \<and> VisibleComponent c = Some True
      \<and> RigidBodyComponent c = Some Fixed
      \<and> NameComponent c = Some ''item''
      \<and> TriggerComponent c =
            Some [\<lparr>onEnter = Some ''onCollectItem'', onExit = None, target = ''''\<rparr>]
      \<and> map_of (CallbackComponent c) ''onCollectItem'' = Some (OnCollectItem uuid)
      \<and> TransformScale c = Some (1 / 4, 1 / 4, 1 / 4)
      \<and> ColliderComponent c =
            Some \<lparr>shape = Sphere, collisionLayer = Default, collisionMask = Avatars\<rparr>
      \<and> PrimitiveGeometryComponent c = Some SphereGeometry
      \<and> ShadowComponent c)"


text \<open>
  The same for the handles that still resolve to the entity their effect ran with: an
  entity the engine has removed since, or replaced, is not asked about.
\<close>

definition mountedConfigured :: "Engine \<Rightarrow> Process \<Rightarrow> bool" where
  "mountedConfigured env s =
     list_all
       (\<lambda>m. snd m = UndefinedEntity
            \<or> useEntityByUUID env (fst m) \<noteq> snd m
            \<or> itemConfigured (fst m) (getComponents (ecs s) (snd m)))
       (mounted s)"

text \<open>
  The handles of \<open>ItemState\<close> that are bound: the handle resolves to an entity, and the
  entity has the item configuration of the handle.
\<close>

definition boundHandles :: "Engine \<Rightarrow> Process \<Rightarrow> EntityUUID list" where
  "boundHandles env s =
     filter (\<lambda>uuid. useEntityByUUID env uuid \<noteq> UndefinedEntity
                    \<and> itemConfigured uuid (getComponents (ecs s) (useEntityByUUID env uuid)))
       (map fst (ItemState s))"

text \<open>The entities the handles of \<open>ItemState\<close> resolve to.\<close>

definition resolvedEntities :: "Engine \<Rightarrow> Process \<Rightarrow> Entity set" where
  "resolvedEntities env s =
     set (filter (\<lambda>e. e \<noteq> UndefinedEntity) (map (useEntityByUUID env) (map fst (ItemState s))))"

text \<open>
  An event that is no destroy action of a user whose key the proxy reads as anything but a
  nested state.
\<close>

definition nestedUsers :: "Engine \<Rightarrow> Event \<Rightarrow> bool" where
  "nestedUsers env ev =
     (case ev of
        Tick \<Rightarrow> True
      | Incoming a \<Rightarrow> \<not> ItemActions_destroy_matches a \<or> stateKey env (userID a) = Nested
      | React \<Rightarrow> True
      | Overlap uuid triggerEntity otherEntity \<Rightarrow> True
      | EngineWrites w \<Rightarrow> True)"

text \<open>
  A sequence of actions applied to \<open>ScoreState\<close> alone, each settled as in
  \<open>applyAction\<close>, and the number of destroy actions of a user in it.
\<close>

definition destroysOf :: "UserID \<Rightarrow> Action list \<Rightarrow> nat" where
  "destroysOf v acts = length (filter (\<lambda>a. ItemActions_destroy_matches a \<and> userID a = v) acts)"

definition ScoreState_applyAll :: "Engine \<Rightarrow> Action list \<Rightarrow> nat StateValue \<Rightarrow> nat StateValue" where
  "ScoreState_applyAll env acts state =
     foldl (\<lambda>st a. settle (ScoreState_onCollectItem env a st) st) state acts"

subsection \<open>Example engines and processes\<close>

text \<open>
  A hosting engine whose scene has the platform (entity 2) under the scene root (entity 1,
  UUID \<open>''scene''\<close>); the item \<open>''H1''\<close> is entity 3 and the local avatar entity 7. Its
  state proxy has the member names listed.
\<close>

definition hostEngine :: Engine where
  "hostEngine =
     \<lparr>worldNetwork = Some \<lparr>isHosting = True\<rparr>,
      entitiesByName = (\<lambda>n. if n = ''platform'' then Some [2] else None),
      getAncestorWithSceneComponent = (\<lambda>e. 1),
      getUUIDComponent = (\<lambda>e. if e = 1 then Some ''scene'' else None),
      generateUUID = ''H2'',
      random_color = 0, random_x = 1 / 2, random_z = 1 / 2,
      random_rotation = (0, 0, 0, 1),
      useEntityByUUID = (\<lambda>u. if u = ''H1'' then 3 else 0),
      getSelfAvatarEntity = 7,
      instance_userID = ''U1'',
      spawnObject_matches = (\<lambda>p. p \<noteq> None),
      stateKey =
        (\<lambda>k. if k = ''ornull'' then Self
             else if k \<in> set [''value'', ''keys'', ''set'', ''get'', ''merge'', ''nested'', ''path'',
                              ''promised'', ''promise'', ''error'', ''toJSON'']
             then NoState else Nested)\<rparr>"

text \<open>The same engine on a process that does not host.\<close>

definition clientEngine :: Engine where
  "clientEngine = hostEngine\<lparr>worldNetwork := Some \<lparr>isHosting = False\<rparr>\<rparr>"

text \<open>The same engine before the entity of \<open>''H1''\<close> exists.\<close>

definition earlyEngine :: Engine where
  "earlyEngine = hostEngine\<lparr>useEntityByUUID := (\<lambda>u. 0)\<rparr>"

text \<open>
  A hosting engine whose platform has no ancestor with a scene component: the lookup gives
  the undefined entity, which has no UUID. \<open>v\<close> is the base shape's check of the parent.
\<close>

definition rootlessEngine :: "(EntityUUID option \<Rightarrow> bool) \<Rightarrow> Engine" where
  "rootlessEngine v =
     hostEngine\<lparr>getAncestorWithSceneComponent := (\<lambda>e. UndefinedEntity),
                spawnObject_matches := v\<rparr>"

definition spawnH1 :: Action where
  "spawnH1 = Spawn (Some ''scene'') ''H1'' ''red'' (0, 1 / 2, 0) (0, 0, 0, 1)"

definition spawnH2 :: Action where
  "spawnH2 = Spawn (Some ''scene'') ''H2'' ''red'' (0, 1 / 2, 0) (0, 0, 0, 1)"

text \<open>The process after \<open>spawnH1\<close> has been applied, and after the reactor has then run.\<close>

definition spawnedProcess :: Process where
  "spawnedProcess = applyAction hostEngine spawnH1 initialProcess"

definition boundProcess :: Process where
  "boundProcess = ItemState_reactor hostEngine spawnedProcess"

section \<open>Properties\<close>

subsection \<open>The examples, evaluated\<close>

lemmas engine_defs = hostEngine_def clientEngine_def earlyEngine_def rootlessEngine_def
lemmas exec_defs = ItemSpawnSystem_execute_def isHostingWorld_def pickColor_def ValidItemColors_def
  platformEntity_def UndefinedEntity_def ItemActions_spawn_def ItemActions_spawn_matches_def
  dispatchAction_def randFloat_def

lemma hostEngine_Nested: "stateKey hostEngine ''H1'' = Nested" "stateKey hostEngine ''U1'' = Nested"
  "stateKey hostEngine ''U2'' = Nested"
  by (simp_all add: hostEngine_def)

lemma spawnedProcess_eq:
  "spawnedProcess =
     \<lparr>ScoreState_value = RecordValue [], ItemState_value = RecordValue [(''H1'', ''red'')],
      ecs = [], mounted = [], actions = []\<rparr>"
  by (simp add: spawnedProcess_def applyAction_def spawnH1_def initialProcess_def settle_def
      ScoreState_onCollectItem_def ItemState_onCollectItem_def receive_def
      ItemActions_destroy_matches_def ItemActions_spawn_matches_def ValidItemColors_def hostEngine_def)

lemma boundProcess_eq:
  "boundProcess =
     \<lparr>ScoreState_value = RecordValue [], ItemState_value = RecordValue [(''H1'', ''red'')],
      ecs = [(3, configure ''H1'' noComponents)], mounted = [(''H1'', 3)], actions = []\<rparr>"
  by (simp add: boundProcess_def spawnedProcess_eq ItemState_reactor_def ItemReactor_def
      ItemReactor_effect_def hostEngine_def UndefinedEntity_def setComponent_def setCallback_def
      getComponents_def configure_def noComponents_def ItemState_def)

subsection \<open>Receptors\<close>

lemma ScoreState_destroy_Nested:
  "stateKey env u = Nested \<Longrightarrow>
     ScoreState_onCollectItem env (Destroy h u) (RecordValue r) =
       Inr (RecordValue
             (AList.update u (case map_of r u of None \<Rightarrow> 1 | Some val \<Rightarrow> js_add1 val) r))"
  by (simp add: ScoreState_onCollectItem_def receive_def ItemActions_destroy_matches_def
      split: option.splits)

lemma ScoreState_no_match:
  "\<not> ItemActions_destroy_matches a \<Longrightarrow> ScoreState_onCollectItem env a st = Inr st"
  by (simp add: ScoreState_onCollectItem_def receive_def)

lemma ItemState_destroy: "ItemState_onCollectItem env (Destroy h u) st = Inr st"
  by (simp add: ItemState_onCollectItem_def receive_def ItemActions_spawn_matches_def)

lemma ItemState_no_match:
  "\<not> ItemActions_spawn_matches env a \<Longrightarrow> ItemState_onCollectItem env a st = Inr st"
  by (simp add: ItemState_onCollectItem_def receive_def)

lemma settle_Inr: "settle (Inr st') st = st'"
  by (simp add: settle_def)

lemma applyAction_destroy:
  "applyAction env (Destroy h u) s =
     s\<lparr>ScoreState_value :=
         settle (ScoreState_onCollectItem env (Destroy h u) (ScoreState_value s))
           (ScoreState_value s)\<rparr>"
  by (simp add: applyAction_def ItemState_destroy settle_Inr)

lemma applyAction_destroy_Nested:
  assumes "stateKey env u = Nested" and "ScoreState_value s = RecordValue r"
  shows "applyAction env (Destroy h u) s =
     s\<lparr>ScoreState_value :=
         RecordValue
           (AList.update u (case map_of r u of None \<Rightarrow> 1 | Some val \<Rightarrow> js_add1 val) r)\<rparr>"
  using assms by (simp add: applyAction_destroy ScoreState_destroy_Nested settle_Inr)

lemma currentScore_update:
  "currentScore (AList.update u n st) v = (if v = u then n else currentScore st v)"
  by (simp add: currentScore_def update_conv')

text \<open>A destroy action of a user whose key is read as a nested state.\<close>

lemma settle_ScoreState_Nested:
  assumes "ItemActions_destroy_matches a \<longrightarrow> stateKey env (userID a) = Nested"
  shows "recordOf (settle (ScoreState_onCollectItem env a st) st) =
     (case st of
        RecordValue r \<Rightarrow>
          if ItemActions_destroy_matches a
          then AList.update (userID a)
                 (case map_of r (userID a) of None \<Rightarrow> 1 | Some val \<Rightarrow> js_add1 val) r
          else r
      | StringValue str \<Rightarrow> [])
     \<and> (\<forall>str. st = StringValue str \<longrightarrow> settle (ScoreState_onCollectItem env a st) st = st)
     \<and> (\<forall>r. st = RecordValue r \<longrightarrow> (\<exists>r'. settle (ScoreState_onCollectItem env a st) st = RecordValue r'))"
proof (cases a)
  case (Destroy h u)
  with assms have "stateKey env u = Nested"
    by (simp add: ItemActions_destroy_matches_def)
  with Destroy show ?thesis
    by (cases st)
       (simp_all add: ScoreState_destroy_Nested settle_def ItemActions_destroy_matches_def
         ScoreState_onCollectItem_def receive_def split: option.splits)
qed (cases st; simp add: ScoreState_no_match settle_def ItemActions_destroy_matches_def)+

lemma js_add1_ge: "val \<le> js_add1 val"
  by (simp add: js_add1_def)

lemma currentScore_settle_mono:
  assumes "ItemActions_destroy_matches a \<longrightarrow> stateKey env (userID a) = Nested"
  shows "currentScore (recordOf st) v
           \<le> currentScore (recordOf (settle (ScoreState_onCollectItem env a st) st)) v
         \<and> fst ` set (recordOf st) \<subseteq> fst ` set (recordOf (settle (ScoreState_onCollectItem env a st) st))"
proof (cases st)
  case (RecordValue r)
  have "currentScore r v \<le> (case map_of r v of None \<Rightarrow> 1 | Some val \<Rightarrow> js_add1 val)"
    using js_add1_ge by (simp add: currentScore_def split: option.splits)
  with RecordValue show ?thesis
    using settle_ScoreState_Nested[OF assms, of st]
    by (auto simp: currentScore_update dom_update)
next
  case (StringValue str)
  then show ?thesis
    using settle_ScoreState_Nested[OF assms, of st] by simp
qed

subsection \<open>The spawn system and the events\<close>

lemma execute_cases:
  "ItemSpawnSystem_execute env s = Inr s'
    \<Longrightarrow> s' = s \<or> (\<exists>a. ItemActions_spawn_matches env a \<and> isHostingWorld env \<and> itemQuery (ecs s) = [] \<and> s' = dispatchAction a s)"
  by (auto simp: ItemSpawnSystem_execute_def Let_def ItemActions_spawn_def
      split: if_splits option.splits sum.splits)

lemma execute_not_hosting: "\<not> isHostingWorld env \<Longrightarrow> ItemSpawnSystem_execute env s = Inr s"
  by (simp add: ItemSpawnSystem_execute_def)

lemma execute_item_exists: "itemQuery (ecs s) \<noteq> [] \<Longrightarrow> ItemSpawnSystem_execute env s = Inr s"
  by (simp add: ItemSpawnSystem_execute_def)

lemma step_ScoreState_value:
  "step env ev s = Inr s' \<Longrightarrow>
     ScoreState_value s' =
       (case ev of
          Incoming a \<Rightarrow> settle (ScoreState_onCollectItem env a (ScoreState_value s)) (ScoreState_value s)
        | _ \<Rightarrow> ScoreState_value s)"
  by (cases ev)
     (auto simp: applyAction_def ItemState_reactor_def Let_def onCollectItem_def dispatchAction_def
       dest!: execute_cases)

lemma step_score_mono:
  assumes "step env ev s = Inr s'" and "nestedUsers env ev"
  shows "currentScore (ScoreState s) v \<le> currentScore (ScoreState s') v
       \<and> fst ` set (ScoreState s) \<subseteq> fst ` set (ScoreState s')"
proof (cases ev)
  case (Incoming a)
  with assms(2) have "ItemActions_destroy_matches a \<longrightarrow> stateKey env (userID a) = Nested"
    by (auto simp: nestedUsers_def)
  from currentScore_settle_mono[OF this, of "ScoreState_value s" v]
    step_ScoreState_value[OF assms(1)] Incoming
  show ?thesis by (simp add: ScoreState_def)
qed (use step_ScoreState_value[OF assms(1)] in \<open>simp_all add: ScoreState_def\<close>)

lemma run_score_mono:
  "run evs s = Inr s' \<Longrightarrow> (\<And>ev. ev \<in> set evs \<Longrightarrow> nestedUsers (fst ev) (snd ev)) \<Longrightarrow>
     currentScore (ScoreState s) v \<le> currentScore (ScoreState s') v
       \<and> fst ` set (ScoreState s) \<subseteq> fst ` set (ScoreState s')"
proof (induction evs arbitrary: s)
  case Nil
  then show ?case by simp
next
  case (Cons ev evs)
  from Cons.prems(1) obtain s1 where s1: "step (fst ev) (snd ev) s = Inr s1" and r: "run evs s1 = Inr s'"
    by (auto split: sum.splits)
  have n: "nestedUsers (fst ev) (snd ev)" using Cons.prems(2) by simp
  have "currentScore (ScoreState s1) v \<le> currentScore (ScoreState s') v
       \<and> fst ` set (ScoreState s1) \<subseteq> fst ` set (ScoreState s')"
    using Cons.IH[OF r] Cons.prems(2) by simp
  with step_score_mono[OF s1 n, of v] show ?case
    by (meson order_trans)
qed

lemma pickColor_valid:
  assumes "0 \<le> r" and "r < 1"
  shows "\<exists>c. pickColor r = Some c \<and> c \<in> set ValidItemColors"
proof -
  let ?n = "length ValidItemColors"
  let ?i = "\<lfloor>r * real ?n\<rfloor>"
  have n: "?n = 8" by (simp add: ValidItemColors_def)
  have lo: "0 \<le> ?i" using assms(1) by simp
  have "r * real ?n < real ?n" using assms(2) n by simp
  then have hi: "?i < int ?n" by (simp add: floor_less_iff)
  from lo hi have "nat ?i < ?n" by linarith
  then have "ValidItemColors ! nat ?i \<in> set ValidItemColors" by (rule nth_mem)
  with lo hi show ?thesis by (simp add: pickColor_def Let_def)
qed

subsection \<open>Components and the reactor\<close>

lemma getComponents_setComponent:
  "getComponents (setComponent e f w) e' = (if e' = e then f (getComponents w e) else getComponents w e')"
  by (simp add: getComponents_def setComponent_def update_conv')

lemma setComponent_twice:
  "setComponent e f (setComponent e g w) = setComponent e (\<lambda>c. f (g c)) w"
  by (simp add: setComponent_def getComponents_def update_conv')

lemma effect_configure:
  "ItemReactor_effect uuid entity w =
     (if entity = UndefinedEntity then w else setComponent entity (configure uuid) w)"
  by (simp add: ItemReactor_effect_def setCallback_def setComponent_twice configure_def [abs_def]
      Let_def)

lemma itemQuery_Cons:
  "itemQuery (p # w) = (if ItemComponent (snd p) then fst p # itemQuery w else itemQuery w)"
  by (simp add: itemQuery_def)

lemma itemQuery_update:
  "ItemComponent v \<Longrightarrow> set (itemQuery (AList.update e v w)) = insert e (set (itemQuery w))"
proof (induction w)
  case Nil
  then show ?case by (simp add: itemQuery_def)
next
  case (Cons p w)
  then show ?case by (auto simp: itemQuery_Cons)
qed

lemma itemQuery_getComponents:
  "ItemComponent (getComponents w e) \<Longrightarrow> e \<in> set (itemQuery w)"
proof -
  assume a: "ItemComponent (getComponents w e)"
  then obtain c where c: "map_of w e = Some c" and i: "ItemComponent c"
    by (auto simp: getComponents_def noComponents_def split: option.splits)
  from map_of_SomeD[OF c] i show ?thesis
    by (force simp: itemQuery_def)
qed

lemma itemQuery_effect:
  "set (itemQuery (ItemReactor_effect uuid entity w)) =
     (if entity = UndefinedEntity then set (itemQuery w) else insert entity (set (itemQuery w)))"
  by (simp add: effect_configure setComponent_def itemQuery_update configure_def)

lemma itemQuery_ItemReactor:
  "set (itemQuery (ItemReactor env deps uuid w)) =
     set (itemQuery w) \<union>
       (if useEntityByUUID env uuid \<noteq> UndefinedEntity \<and> map_of deps uuid \<noteq> Some (useEntityByUUID env uuid)
        then {useEntityByUUID env uuid} else {})"
  by (simp add: ItemReactor_def Let_def itemQuery_effect)

lemma itemQuery_foldl:
  "set (itemQuery (foldl (\<lambda>w uuid. ItemReactor env deps uuid w) w items)) =
     set (itemQuery w) \<union>
       {useEntityByUUID env uuid | uuid. uuid \<in> set items \<and> useEntityByUUID env uuid \<noteq> UndefinedEntity
          \<and> map_of deps uuid \<noteq> Some (useEntityByUUID env uuid)}"
proof (induction items arbitrary: w)
  case Nil
  show ?case by simp
next
  case (Cons u items)
  show ?case
    unfolding foldl_Cons Cons.IH itemQuery_ItemReactor by auto
qed

lemma map_of_ItemReactor_other:
  "useEntityByUUID env u \<noteq> e \<or> e = UndefinedEntity \<Longrightarrow> map_of (ItemReactor env deps u w) e = map_of w e"
  by (auto simp: ItemReactor_def Let_def effect_configure setComponent_def update_conv')

lemma map_of_foldl_other:
  "(\<And>u. u \<in> set items \<Longrightarrow> useEntityByUUID env u \<noteq> e \<or> e = UndefinedEntity)
    \<Longrightarrow> map_of (foldl (\<lambda>w u. ItemReactor env deps u w) w items) e = map_of w e"
proof (induction items arbitrary: w)
  case Nil
  show ?case by simp
next
  case (Cons u items)
  have "map_of (ItemReactor env deps u w) e = map_of w e"
    using Cons.prems[of u] by (intro map_of_ItemReactor_other) simp
  moreover have "map_of (foldl (\<lambda>w u. ItemReactor env deps u w) (ItemReactor env deps u w) items) e
                   = map_of (ItemReactor env deps u w) e"
    using Cons.prems by (intro Cons.IH) auto
  ultimately show ?case by simp
qed

lemma ItemReactor_same:
  "map_of deps uuid = Some (useEntityByUUID env uuid) \<Longrightarrow> ItemReactor env deps uuid w = w"
  by (simp add: ItemReactor_def)

lemma foldl_ItemReactor_same:
  "(\<And>uuid. uuid \<in> set items \<Longrightarrow> map_of deps uuid = Some (useEntityByUUID env uuid))
    \<Longrightarrow> foldl (\<lambda>w uuid. ItemReactor env deps uuid w) w items = w"
  by (induction items arbitrary: w) (simp_all add: ItemReactor_same)

lemma map_of_deps:
  "uuid \<in> set items \<Longrightarrow> map_of (map (\<lambda>uuid. (uuid, f uuid)) items) uuid = Some (f uuid)"
  by (induction items) auto

lemma reactor_ItemState: "ItemState (ItemState_reactor env s) = ItemState s"
  by (simp add: ItemState_reactor_def Let_def ItemState_def)

lemma reactor_idem: "ItemState_reactor env (ItemState_reactor env s) = ItemState_reactor env s"
proof -
  let ?items = "map fst (ItemState s)"
  let ?deps = "map (\<lambda>uuid. (uuid, useEntityByUUID env uuid)) ?items"
  have "foldl (\<lambda>w uuid. ItemReactor env ?deps uuid w) w ?items = w" for w
    by (rule foldl_ItemReactor_same) (rule map_of_deps)
  moreover have "ItemState (ItemState_reactor env s) = ItemState s"
    by (rule reactor_ItemState)
  ultimately show ?thesis
    by (simp add: ItemState_reactor_def[of env "ItemState_reactor env s"] Let_def)
       (simp add: ItemState_reactor_def Let_def)
qed

lemma itemConfigured_configure: "itemConfigured uuid (configure uuid c)"
  by (simp add: itemConfigured_def configure_def update_conv')

lemma getComponents_ItemReactor_other:
  "useEntityByUUID env u \<noteq> e \<Longrightarrow> getComponents (ItemReactor env deps u w) e = getComponents w e"
  by (simp add: ItemReactor_def Let_def effect_configure getComponents_setComponent)

lemma itemConfigured_ItemReactor:
  assumes "useEntityByUUID env uuid = e" and "e \<noteq> UndefinedEntity"
    and "itemConfigured uuid (getComponents w e) \<or> map_of deps uuid \<noteq> Some e"
  shows "itemConfigured uuid (getComponents (ItemReactor env deps uuid w) e)"
  using assms
  by (auto simp: ItemReactor_def Let_def effect_configure getComponents_setComponent
      itemConfigured_configure)

lemma itemConfigured_foldl:
  assumes "useEntityByUUID env uuid = e" and "e \<noteq> UndefinedEntity"
    and "\<And>u. u \<in> set items \<Longrightarrow> u = uuid \<or> useEntityByUUID env u \<noteq> e"
    and "itemConfigured uuid (getComponents w e) \<or> (uuid \<in> set items \<and> map_of deps uuid \<noteq> Some e)"
  shows "itemConfigured uuid (getComponents (foldl (\<lambda>w u. ItemReactor env deps u w) w items) e)"
  using assms(3,4)
proof (induction items arbitrary: w)
  case Nil
  then show ?case by simp
next
  case (Cons u items)
  have rest: "\<And>u'. u' \<in> set items \<Longrightarrow> u' = uuid \<or> useEntityByUUID env u' \<noteq> e"
    using Cons.prems(1) by simp
  show ?case
  proof (cases "u = uuid")
    case True
    have "itemConfigured uuid (getComponents (ItemReactor env deps uuid w) e)"
      using Cons.prems(2) by (intro itemConfigured_ItemReactor assms(1,2)) auto
    then show ?thesis
      using True Cons.IH[OF rest] by simp
  next
    case False
    then have "useEntityByUUID env u \<noteq> e"
      using Cons.prems(1)[of u] by simp
    then have "getComponents (ItemReactor env deps u w) e = getComponents w e"
      by (rule getComponents_ItemReactor_other)
    then show ?thesis
      using False Cons.prems(2) Cons.IH[OF rest, of "ItemReactor env deps u w"] by auto
  qed
qed

text \<open>
  The pass configures the entity of a resolving handle, given that an effect that is not
  due has left its configuration in place.
\<close>

lemma reactor_configured_core:
  assumes kept: "map_of (mounted s) uuid = Some (useEntityByUUID env uuid)
                  \<Longrightarrow> itemConfigured uuid (getComponents (ecs s) (useEntityByUUID env uuid))"
    and inj: "inj_on (useEntityByUUID env)
                {u \<in> set (map fst (ItemState s)). useEntityByUUID env u \<noteq> UndefinedEntity}"
    and mem: "uuid \<in> set (map fst (ItemState s))"
    and res: "useEntityByUUID env uuid \<noteq> UndefinedEntity"
  shows "itemConfigured uuid
           (getComponents (ecs (ItemState_reactor env s)) (useEntityByUUID env uuid))"
proof -
  let ?e = "useEntityByUUID env uuid"
  have other: "u = uuid \<or> useEntityByUUID env u \<noteq> ?e" if "u \<in> set (map fst (ItemState s))" for u
  proof (cases "useEntityByUUID env u = ?e")
    case True
    with that mem res
    have "u \<in> {u \<in> set (map fst (ItemState s)). useEntityByUUID env u \<noteq> UndefinedEntity}"
      and "uuid \<in> {u \<in> set (map fst (ItemState s)). useEntityByUUID env u \<noteq> UndefinedEntity}"
      by simp_all
    from inj_onD[OF inj True this] show ?thesis by simp
  next
    case False
    then show ?thesis by simp
  qed
  have start: "itemConfigured uuid (getComponents (ecs s) ?e)
                 \<or> (uuid \<in> set (map fst (ItemState s)) \<and> map_of (mounted s) uuid \<noteq> Some ?e)"
    using kept mem by blast
  have "itemConfigured uuid
          (getComponents (foldl (\<lambda>w u. ItemReactor env (mounted s) u w) (ecs s) (map fst (ItemState s))) ?e)"
    by (rule itemConfigured_foldl[OF refl res other start])
  then show ?thesis by (simp add: ItemState_reactor_def Let_def)
qed


lemma mountedConfigured_kept:
  assumes "mountedConfigured env s" and "map_of (mounted s) uuid = Some (useEntityByUUID env uuid)"
    and "useEntityByUUID env uuid \<noteq> UndefinedEntity"
  shows "itemConfigured uuid (getComponents (ecs s) (useEntityByUUID env uuid))"
  using assms map_of_SomeD[OF assms(2)] by (auto simp: mountedConfigured_def list_all_iff)



lemma reactor_bound:
  assumes mc: "mountedConfigured env s"
    and inj: "inj_on (useEntityByUUID env)
                {u \<in> set (map fst (ItemState s)). useEntityByUUID env u \<noteq> UndefinedEntity}"
  shows "set (boundHandles env (ItemState_reactor env s)) =
           {uuid \<in> set (map fst (ItemState s)). useEntityByUUID env uuid \<noteq> UndefinedEntity}"
    and "mountedConfigured env (ItemState_reactor env s)"
proof -
  have cfg: "itemConfigured u (getComponents (ecs (ItemState_reactor env s)) (useEntityByUUID env u))"
    if "u \<in> set (map fst (ItemState s))" and "useEntityByUUID env u \<noteq> UndefinedEntity" for u
    by (rule reactor_configured_core[OF mountedConfigured_kept[OF mc _ that(2)] inj that])
  show "set (boundHandles env (ItemState_reactor env s)) =
           {uuid \<in> set (map fst (ItemState s)). useEntityByUUID env uuid \<noteq> UndefinedEntity}"
    using cfg by (auto simp: boundHandles_def reactor_ItemState)
  show "mountedConfigured env (ItemState_reactor env s)"
    unfolding mountedConfigured_def list_all_iff
    using cfg by (auto simp: ItemState_reactor_def Let_def)
qed

lemma reactor_itemQuery:
  assumes mc: "mountedConfigured env s"
  shows "set (itemQuery (ecs (ItemState_reactor env s))) =
           set (itemQuery (ecs s)) \<union> resolvedEntities env s"
proof -
  have kept: "useEntityByUUID env u \<in> set (itemQuery (ecs s))"
    if "map_of (mounted s) u = Some (useEntityByUUID env u)"
      and "useEntityByUUID env u \<noteq> UndefinedEntity" for u
  proof -
    have "itemConfigured u (getComponents (ecs s) (useEntityByUUID env u))"
      by (rule mountedConfigured_kept[OF mc that])
    then have "ItemComponent (getComponents (ecs s) (useEntityByUUID env u))"
      by (simp add: itemConfigured_def)
    then show ?thesis by (rule itemQuery_getComponents)
  qed
  show ?thesis
    by (auto simp: ItemState_reactor_def Let_def itemQuery_foldl resolvedEntities_def dest: kept)
qed

lemma reactor_untouched:
  assumes "e \<notin> resolvedEntities env s"
  shows "map_of (ecs (ItemState_reactor env s)) e = map_of (ecs s) e"
proof -
  have "useEntityByUUID env u \<noteq> e \<or> e = UndefinedEntity" if "u \<in> set (map fst (ItemState s))" for u
    using assms that by (auto simp: resolvedEntities_def)
  then have "map_of (foldl (\<lambda>w u. ItemReactor env (mounted s) u w) (ecs s) (map fst (ItemState s))) e
               = map_of (ecs s) e"
    by (rule map_of_foldl_other)
  then show ?thesis by (simp add: ItemState_reactor_def Let_def)
qed

lemma step_spawns:
  assumes "\<not> isHostingWorld env"
  shows "\<exists>s'. step env ev s = Inr s' \<and> filter isSpawn (actions s') = filter isSpawn (actions s)"
proof (cases ev)
  case Tick
  with assms show ?thesis by (simp add: execute_not_hosting)
next
  case (Incoming a)
  then show ?thesis by (simp add: applyAction_def)
next
  case React
  then show ?thesis by (simp add: ItemState_reactor_def Let_def)
next
  case (Overlap u t e)
  then show ?thesis
    by (simp add: onCollectItem_def dispatchAction_def ItemActions_destroy_def isSpawn_def)
next
  case (EngineWrites w)
  then show ?thesis by simp
qed

lemma run_spawns:
  "(\<And>ev. ev \<in> set evs \<Longrightarrow> \<not> isHostingWorld (fst ev))
    \<Longrightarrow> \<exists>s'. run evs s = Inr s' \<and> filter isSpawn (actions s') = filter isSpawn (actions s)"
proof (induction evs arbitrary: s)
  case Nil
  show ?case by simp
next
  case (Cons ev evs)
  have "\<not> isHostingWorld (fst ev)" using Cons.prems by simp
  from step_spawns[OF this, of "snd ev" s]
  obtain s1 where s1: "step (fst ev) (snd ev) s = Inr s1"
    and f1: "filter isSpawn (actions s1) = filter isSpawn (actions s)"
    by blast
  from Cons.IH[of s1] Cons.prems
  obtain s' where "run evs s1 = Inr s'" and "filter isSpawn (actions s') = filter isSpawn (actions s1)"
    by auto
  with s1 f1 show ?case by simp
qed

lemma applyAction_fields:
  "ecs (applyAction env a s) = ecs s" "mounted (applyAction env a s) = mounted s"
  "actions (applyAction env a s) = actions s"
  by (simp_all add: applyAction_def)

lemma mountedConfigured_applyAction:
  "mountedConfigured env (applyAction env' a s) = mountedConfigured env s"
  by (simp add: mountedConfigured_def applyAction_fields)

lemma reactor_fields:
  "ItemState_value (ItemState_reactor env s) = ItemState_value s"
  "ScoreState_value (ItemState_reactor env s) = ScoreState_value s"
  "actions (ItemState_reactor env s) = actions s"
  by (simp_all add: ItemState_reactor_def Let_def)

lemma js_add1_below: "val < 2 ^ 53 \<Longrightarrow> js_add1 val = val + 1"
  by (simp add: js_add1_def)

lemma destroysOf_Cons:
  "destroysOf v (a # acts) =
     (if ItemActions_destroy_matches a \<and> userID a = v then 1 else 0) + destroysOf v acts"
  by (simp add: destroysOf_def)

lemma ScoreState_applyAll_Cons:
  "ScoreState_applyAll env (a # acts) st =
     ScoreState_applyAll env acts (settle (ScoreState_onCollectItem env a st) st)"
  by (simp add: ScoreState_applyAll_def)

lemma ScoreState_applyAll_counts:
  assumes "\<And>a. a \<in> set acts \<Longrightarrow> ItemActions_destroy_matches a \<longrightarrow> stateKey env (userID a) = Nested"
    and "\<And>w. currentScore r w + destroysOf w acts \<le> 2 ^ 53"
  shows "\<exists>r'. ScoreState_applyAll env acts (RecordValue r) = RecordValue r'
           \<and> (\<forall>v. currentScore r' v = currentScore r v + destroysOf v acts)"
  using assms
proof (induction acts arbitrary: r)
  case Nil
  show ?case by (simp add: ScoreState_applyAll_def destroysOf_def)
next
  case (Cons a acts)
  have key: "ItemActions_destroy_matches a \<longrightarrow> stateKey env (userID a) = Nested"
    using Cons.prems(1) by simp
  from settle_ScoreState_Nested[OF key, of "RecordValue r"]
  obtain r1 where r1: "settle (ScoreState_onCollectItem env a (RecordValue r)) (RecordValue r) = RecordValue r1"
    by auto
  have r1_eq: "r1 = (if ItemActions_destroy_matches a
          then AList.update (userID a)
                 (case map_of r (userID a) of None \<Rightarrow> 1 | Some val \<Rightarrow> js_add1 val) r
          else r)"
    using settle_ScoreState_Nested[OF key, of "RecordValue r"] by (simp add: r1)
  have score1: "currentScore r1 v =
      currentScore r v + (if ItemActions_destroy_matches a \<and> userID a = v then 1 else 0)" for v
  proof (cases "ItemActions_destroy_matches a \<and> userID a = v")
    case True
    have "currentScore r v + destroysOf v (a # acts) \<le> 2 ^ 53" by (rule Cons.prems(2))
    with True have "currentScore r v < 2 ^ 53" by (simp add: destroysOf_Cons)
    then have "(case map_of r v of None \<Rightarrow> 1 | Some val \<Rightarrow> js_add1 val) = currentScore r v + 1"
      by (simp add: currentScore_def js_add1_below split: option.splits)
    with True show ?thesis by (simp add: r1_eq currentScore_update)
  next
    case False
    then show ?thesis by (auto simp: r1_eq currentScore_update)
  qed
  have bound1: "currentScore r1 w + destroysOf w acts \<le> 2 ^ 53" for w
    using Cons.prems(2)[of w] by (simp add: score1 destroysOf_Cons)
  from Cons.IH[of r1] Cons.prems(1) bound1
  obtain r' where "ScoreState_applyAll env acts (RecordValue r1) = RecordValue r'"
    and "\<forall>v. currentScore r' v = currentScore r1 v + destroysOf v acts"
    by auto
  then show ?case
    by (simp add: ScoreState_applyAll_Cons r1 score1 destroysOf_Cons)
qed

subsection \<open>Claims\<close>

text \<open>
  C1. The claim: applying a destroy action for a handle present in \<open>ItemState\<close> removes
  the handle's entry. \<open>ItemState\<close> has one receptor, for \<^verbatim>\<open>ItemActions.spawn\<close>, and none
  for \<^verbatim>\<open>ItemActions.destroy\<close>: in the process where \<open>''H1''\<close> is spawned and bound, the
  entry of \<open>''H1''\<close> is still there after the destroy action for \<open>''H1''\<close> is applied.
\<close>

theorem C1_destroy_keeps_item_entry:
  "map_of (ItemState boundProcess) ''H1'' = Some ''red''
   \<and> ItemState (applyAction hostEngine (Destroy ''H1'' ''U1'') boundProcess) = [(''H1'', ''red'')]"
  by (simp add: applyAction_destroy boundProcess_eq ItemState_def)

text \<open>
  C2 as stated fails: after \<open>spawnH1\<close> is applied and the reactor runs while the entity of
  \<open>''H1''\<close> does not exist yet, the handle is in \<open>ItemState\<close> and bound to no entity.
\<close>

theorem C2_unresolved_handle_not_bound:
  "set (boundHandles earlyEngine (ItemState_reactor earlyEngine spawnedProcess))
     \<noteq> set (map fst (ItemState (ItemState_reactor earlyEngine spawnedProcess)))"
  by (simp add: boundHandles_def ItemState_reactor_def spawnedProcess_eq earlyEngine_def
      hostEngine_def UndefinedEntity_def ItemState_def)

text \<open>
  C2, amended. After a pass of the reactor the bound handles are exactly the handles of
  \<open>ItemState\<close> that resolve to an entity, each bound to that entity with the full item
  configuration of the handle. The entities that carry the item component after the pass
  are those that did before and the entities of these handles. The entry of every other
  entity in the component store is what it was, so the pass creates no entity and touches
  none but those of the handles. The pass leaves both states and the dispatched actions as
  they are, a second pass against the same state and engine changes nothing, and the
  hypothesis on earlier configurations holds again after the pass and after any action
  applied then. Different handles resolve to different entities.
\<close>

theorem C2_reactor_binds_resolved_handles:
  assumes "mountedConfigured env s"
    and "inj_on (useEntityByUUID env)
           {u \<in> set (map fst (ItemState s)). useEntityByUUID env u \<noteq> UndefinedEntity}"
  shows "set (boundHandles env (ItemState_reactor env s)) =
           {uuid \<in> set (map fst (ItemState s)). useEntityByUUID env uuid \<noteq> UndefinedEntity}
         \<and> set (itemQuery (ecs (ItemState_reactor env s))) =
             set (itemQuery (ecs s)) \<union> resolvedEntities env s
         \<and> (\<forall>e. e \<notin> resolvedEntities env s \<longrightarrow>
               map_of (ecs (ItemState_reactor env s)) e = map_of (ecs s) e)
         \<and> ItemState_value (ItemState_reactor env s) = ItemState_value s
         \<and> ScoreState_value (ItemState_reactor env s) = ScoreState_value s
         \<and> actions (ItemState_reactor env s) = actions s
         \<and> ItemState_reactor env (ItemState_reactor env s) = ItemState_reactor env s
         \<and> mountedConfigured env (ItemState_reactor env s)
         \<and> mountedConfigured env (applyAction env' a (ItemState_reactor env s))"
  using reactor_bound[OF assms] reactor_itemQuery[OF assms(1)]
  by (simp add: reactor_untouched reactor_fields reactor_idem mountedConfigured_applyAction)

theorem C2_reactor_binds_resolved_handles_witness:
  "mountedConfigured hostEngine spawnedProcess
   \<and> set (boundHandles hostEngine (ItemState_reactor hostEngine spawnedProcess)) = {''H1''}
   \<and> set (itemQuery (ecs (ItemState_reactor hostEngine spawnedProcess))) = {3}
   \<and> map_of (ecs (ItemState_reactor hostEngine spawnedProcess)) 103 = None
   \<and> mountedConfigured earlyEngine boundProcess
   \<and> set (boundHandles earlyEngine (ItemState_reactor earlyEngine boundProcess)) = {}
   \<and> map_of (ecs (ItemState_reactor earlyEngine boundProcess)) 3 = map_of (ecs boundProcess) 3"
proof -
  have a1: "mountedConfigured hostEngine spawnedProcess"
    by (simp add: mountedConfigured_def spawnedProcess_eq)
  have k1: "{u \<in> set (map fst (ItemState spawnedProcess)). useEntityByUUID hostEngine u \<noteq> UndefinedEntity}
              = {''H1''}"
    by (auto simp: spawnedProcess_eq ItemState_def hostEngine_def UndefinedEntity_def)
  have b1: "inj_on (useEntityByUUID hostEngine)
              {u \<in> set (map fst (ItemState spawnedProcess)). useEntityByUUID hostEngine u \<noteq> UndefinedEntity}"
    unfolding k1 by simp
  have r1: "resolvedEntities hostEngine spawnedProcess = {3}"
    by (simp add: resolvedEntities_def spawnedProcess_eq ItemState_def hostEngine_def
        UndefinedEntity_def)
  have q1: "itemQuery (ecs spawnedProcess) = []" "map_of (ecs spawnedProcess) 103 = None"
    by (simp_all add: spawnedProcess_eq itemQuery_def)
  have a2: "mountedConfigured earlyEngine boundProcess"
    by (simp add: mountedConfigured_def boundProcess_eq earlyEngine_def)
  have k2: "{u \<in> set (map fst (ItemState boundProcess)). useEntityByUUID earlyEngine u \<noteq> UndefinedEntity}
              = {}"
    by (simp add: earlyEngine_def UndefinedEntity_def)
  have b2: "inj_on (useEntityByUUID earlyEngine)
              {u \<in> set (map fst (ItemState boundProcess)). useEntityByUUID earlyEngine u \<noteq> UndefinedEntity}"
    unfolding k2 by simp
  have r2: "resolvedEntities earlyEngine boundProcess = {}"
    by (simp add: resolvedEntities_def earlyEngine_def UndefinedEntity_def)
  note w1 = C2_reactor_binds_resolved_handles[OF a1 b1, unfolded k1 r1]
  note w2 = C2_reactor_binds_resolved_handles[OF a2 b2, unfolded k2 r2]
  have x1: "set (boundHandles hostEngine (ItemState_reactor hostEngine spawnedProcess)) = {''H1''}"
    using w1 by blast
  have x2: "set (itemQuery (ecs (ItemState_reactor hostEngine spawnedProcess))) = {3}"
    using w1 q1(1) by simp
  have "(103 :: Entity) \<notin> {3}" by simp
  with w1 have "map_of (ecs (ItemState_reactor hostEngine spawnedProcess)) 103
                  = map_of (ecs spawnedProcess) 103"
    by blast
  then have x3: "map_of (ecs (ItemState_reactor hostEngine spawnedProcess)) 103 = None"
    by (simp add: q1(2))
  have x4: "set (boundHandles earlyEngine (ItemState_reactor earlyEngine boundProcess)) = {}"
    using w2 by blast
  have "(3 :: Entity) \<notin> {}" by simp
  with w2 have x5: "map_of (ecs (ItemState_reactor earlyEngine boundProcess)) 3
                      = map_of (ecs boundProcess) 3"
    by blast
  from a1 a2 x1 x2 x3 x4 x5 show ?thesis by blast
qed

text \<open>
  C3 as stated fails: a destroy action for a handle that is absent from \<open>ItemState\<close>
  changes \<open>ScoreState\<close>.
\<close>

theorem C3_stale_destroy_changes_score:
  "map_of (ItemState initialProcess) ''H1'' = None
   \<and> ScoreState (applyAction hostEngine (Destroy ''H1'' ''U1'') initialProcess)
       \<noteq> ScoreState initialProcess"
  by (simp add: applyAction_destroy initialProcess_def ItemState_def ScoreState_def
      ScoreState_destroy_Nested hostEngine_Nested settle_Inr)

text \<open>
  C3, amended. Applying a destroy action whose handle is not in \<open>ItemState\<close> leaves
  \<open>ItemState\<close>, the components, the reactor's memory and the dispatched actions unchanged,
  and the step is no error. The receptor of \<open>ScoreState\<close> does not look at \<open>ItemState\<close>:
  when the user's key is read as a nested state of the score record and the user's count
  is below \<open>2 ^ 53\<close>, the receptor does not throw, and the one change is that the user is
  credited with one more item (1 when the user had no count).
\<close>

theorem C3_stale_destroy_only_scores:
  assumes "map_of (ItemState s) h = None"
  shows "ItemState_value (applyAction env (Destroy h u) s) = ItemState_value s
       \<and> map_of (ItemState (applyAction env (Destroy h u) s)) h = None
       \<and> ecs (applyAction env (Destroy h u) s) = ecs s
       \<and> mounted (applyAction env (Destroy h u) s) = mounted s
       \<and> actions (applyAction env (Destroy h u) s) = actions s
       \<and> step env (Incoming (Destroy h u)) s = Inr (applyAction env (Destroy h u) s)
       \<and> (stateKey env u = Nested \<and> ScoreState_value s = RecordValue r
            \<and> (case map_of r u of None \<Rightarrow> True | Some val \<Rightarrow> val < 2 ^ 53) \<longrightarrow>
          ScoreState_onCollectItem env (Destroy h u) (ScoreState_value s) =
            Inr (RecordValue
                  (AList.update u (case map_of r u of None \<Rightarrow> 1 | Some val \<Rightarrow> val + 1) r))
          \<and> applyAction env (Destroy h u) s =
              s\<lparr>ScoreState_value :=
                  RecordValue
                    (AList.update u (case map_of r u of None \<Rightarrow> 1 | Some val \<Rightarrow> val + 1) r)\<rparr>)"
proof -
  have same: "ItemState_value (applyAction env (Destroy h u) s) = ItemState_value s"
    by (simp add: applyAction_destroy)
  then have absent: "map_of (ItemState (applyAction env (Destroy h u) s)) h = None"
    using assms by (simp add: ItemState_def)
  have score: "ScoreState_onCollectItem env (Destroy h u) (ScoreState_value s) =
            Inr (RecordValue
                  (AList.update u (case map_of r u of None \<Rightarrow> 1 | Some val \<Rightarrow> val + 1) r))
          \<and> applyAction env (Destroy h u) s =
              s\<lparr>ScoreState_value :=
                  RecordValue
                    (AList.update u (case map_of r u of None \<Rightarrow> 1 | Some val \<Rightarrow> val + 1) r)\<rparr>"
    if "stateKey env u = Nested" and "ScoreState_value s = RecordValue r"
      and "case map_of r u of None \<Rightarrow> True | Some val \<Rightarrow> val < 2 ^ 53"
  proof -
    have "(case map_of r u of None \<Rightarrow> 1 | Some val \<Rightarrow> js_add1 val)
            = (case map_of r u of None \<Rightarrow> 1 | Some val \<Rightarrow> val + 1)"
      using that(3) by (simp add: js_add1_below split: option.splits)
    with that(1,2) show ?thesis
      by (simp add: applyAction_destroy_Nested ScoreState_destroy_Nested)
  qed
  from same absent score show ?thesis
    by (simp add: applyAction_fields)
qed

theorem C3_stale_destroy_only_scores_witness:
  "map_of (ItemState initialProcess) ''H1'' = None
   \<and> ItemState (applyAction hostEngine (Destroy ''H1'' ''U1'') initialProcess) = []
   \<and> stateKey hostEngine ''U1'' = Nested
   \<and> ScoreState_value initialProcess = RecordValue []
   \<and> ScoreState_onCollectItem hostEngine (Destroy ''H1'' ''U1'') (ScoreState_value initialProcess)
       = Inr (RecordValue [(''U1'', 1)])
   \<and> applyAction hostEngine (Destroy ''H1'' ''U1'') initialProcess =
       initialProcess\<lparr>ScoreState_value := RecordValue [(''U1'', 1)]\<rparr>"
proof -
  have h: "map_of (ItemState initialProcess) ''H1'' = None"
    by (simp add: initialProcess_def ItemState_def)
  have k: "stateKey hostEngine ''U1'' = Nested" by (rule hostEngine_Nested)
  have v: "ScoreState_value initialProcess = RecordValue []"
    and i: "ItemState_value initialProcess = RecordValue []"
    by (simp_all add: initialProcess_def)
  from C3_stale_destroy_only_scores[OF h, of hostEngine "''U1''" "[]"] h k v i show ?thesis
    by (simp add: ItemState_def)
qed

text \<open>
  C4 as stated fails. A destroy action of the user \<open>''value''\<close> makes the receptor throw and
  initialises no count; a destroy action of the user \<open>''ornull''\<close> replaces the whole
  \<open>ScoreState\<close> by a string, so the count of \<open>''U1''\<close> is gone; and a count of \<open>2 ^ 53\<close>
  stays what it is.
\<close>

theorem C4_proxy_member_users_break_counts:
  "ScoreState_onCollectItem hostEngine (Destroy ''H1'' ''value'') (RecordValue []) = Inl TypeError
   \<and> map_of (ScoreState (applyAction hostEngine (Destroy ''H1'' ''value'') initialProcess)) ''value''
       = None
   \<and> map_of (ScoreState (applyAction hostEngine (Destroy ''H1'' ''U1'') initialProcess)) ''U1''
       = Some 1
   \<and> ScoreState_value
       (applyAction hostEngine (Destroy ''H2'' ''ornull'')
          (applyAction hostEngine (Destroy ''H1'' ''U1'') initialProcess))
       = StringValue ''[object Object]1''
   \<and> map_of
       (ScoreState
          (applyAction hostEngine (Destroy ''H2'' ''ornull'')
             (applyAction hostEngine (Destroy ''H1'' ''U1'') initialProcess))) ''U1'' = None
   \<and> ScoreState_onCollectItem hostEngine (Destroy ''H1'' ''U1'') (RecordValue [(''U1'', 2 ^ 53)])
       = Inr (RecordValue [(''U1'', 2 ^ 53)])"
  by (simp add: applyAction_destroy initialProcess_def ScoreState_def settle_def
      ScoreState_onCollectItem_def receive_def ItemActions_destroy_matches_def hostEngine_def
      js_add1_def)

text \<open>
  C4, amended. For a user whose key is read as a nested state of the score record: a
  destroy action sets the user's count to 1 when the key is absent and, when the count is
  below \<open>2 ^ 53\<close>, to one more when it is present; the receptor does not throw, and no
  other key is touched. So the score of the user grows by exactly 1, and over any sequence
  of actions whose destroying users are all read so, with every score staying within
  \<open>2 ^ 53\<close>, the score of \<open>v\<close> grows by the number of destroy actions of \<open>v\<close> in it. No
  run of events whose destroying users are all read so lowers a score or removes a key.
  The score of an identity without a key reads 0.
\<close>

theorem C4_score_counts_destroys:
  "(stateKey env u = Nested \<and> map_of r u = None \<longrightarrow>
      ScoreState_onCollectItem env (Destroy h u) (RecordValue r)
        = Inr (RecordValue (AList.update u 1 r)))
   \<and> (stateKey env u = Nested \<and> map_of r u = Some n \<and> n < 2 ^ 53 \<longrightarrow>
      ScoreState_onCollectItem env (Destroy h u) (RecordValue r)
        = Inr (RecordValue (AList.update u (n + 1) r)))
   \<and> (stateKey env u = Nested \<and> currentScore r u < 2 ^ 53 \<longrightarrow>
      (\<exists>r'. ScoreState_onCollectItem env (Destroy h u) (RecordValue r) = Inr (RecordValue r')
          \<and> currentScore r' u = currentScore r u + 1
          \<and> (\<forall>w. w \<noteq> u \<longrightarrow> map_of r' w = map_of r w)))
   \<and> ((\<forall>a \<in> set acts. ItemActions_destroy_matches a \<longrightarrow> stateKey env (userID a) = Nested)
        \<and> (\<forall>w. currentScore r w + destroysOf w acts \<le> 2 ^ 53) \<longrightarrow>
      (\<exists>r'. ScoreState_applyAll env acts (RecordValue r) = RecordValue r'
          \<and> currentScore r' v = currentScore r v + destroysOf v acts))
   \<and> ((\<forall>ev \<in> set evs. nestedUsers (fst ev) (snd ev)) \<and> run evs s = Inr s' \<longrightarrow>
        currentScore (ScoreState s) v \<le> currentScore (ScoreState s') v
        \<and> fst ` set (ScoreState s) \<subseteq> fst ` set (ScoreState s'))
   \<and> (map_of r v = None \<longrightarrow> currentScore r v = 0)"
proof -
  have c1: "stateKey env u = Nested \<and> map_of r u = None \<longrightarrow>
      ScoreState_onCollectItem env (Destroy h u) (RecordValue r)
        = Inr (RecordValue (AList.update u 1 r))"
    by (simp add: ScoreState_destroy_Nested)
  have c2: "stateKey env u = Nested \<and> map_of r u = Some n \<and> n < 2 ^ 53 \<longrightarrow>
      ScoreState_onCollectItem env (Destroy h u) (RecordValue r)
        = Inr (RecordValue (AList.update u (n + 1) r))"
    by (simp add: ScoreState_destroy_Nested js_add1_below)
  have c3: "stateKey env u = Nested \<and> currentScore r u < 2 ^ 53 \<longrightarrow>
      (\<exists>r'. ScoreState_onCollectItem env (Destroy h u) (RecordValue r) = Inr (RecordValue r')
          \<and> currentScore r' u = currentScore r u + 1
          \<and> (\<forall>w. w \<noteq> u \<longrightarrow> map_of r' w = map_of r w))"
  proof
    assume a: "stateKey env u = Nested \<and> currentScore r u < 2 ^ 53"
    then have "(case map_of r u of None \<Rightarrow> 1 | Some val \<Rightarrow> js_add1 val) = currentScore r u + 1"
      by (simp add: currentScore_def js_add1_below split: option.splits)
    with a show "\<exists>r'. ScoreState_onCollectItem env (Destroy h u) (RecordValue r) = Inr (RecordValue r')
          \<and> currentScore r' u = currentScore r u + 1
          \<and> (\<forall>w. w \<noteq> u \<longrightarrow> map_of r' w = map_of r w)"
      by (simp add: ScoreState_destroy_Nested currentScore_update update_conv')
  qed
  have c4: "(\<forall>a \<in> set acts. ItemActions_destroy_matches a \<longrightarrow> stateKey env (userID a) = Nested)
        \<and> (\<forall>w. currentScore r w + destroysOf w acts \<le> 2 ^ 53) \<longrightarrow>
      (\<exists>r'. ScoreState_applyAll env acts (RecordValue r) = RecordValue r'
          \<and> currentScore r' v = currentScore r v + destroysOf v acts)"
    using ScoreState_applyAll_counts[of acts env r] by blast
  have c5: "(\<forall>ev \<in> set evs. nestedUsers (fst ev) (snd ev)) \<and> run evs s = Inr s' \<longrightarrow>
        currentScore (ScoreState s) v \<le> currentScore (ScoreState s') v
        \<and> fst ` set (ScoreState s) \<subseteq> fst ` set (ScoreState s')"
    using run_score_mono[of evs s s' v] by blast
  have c6: "map_of r v = None \<longrightarrow> currentScore r v = 0"
    by (simp add: currentScore_def)
  from c1 c2 c3 c4 c5 c6 show ?thesis by blast
qed

theorem C4_score_counts_destroys_witness:
  "stateKey hostEngine ''U1'' = Nested
   \<and> map_of [] ''U1'' = (None :: nat option)
   \<and> ScoreState_onCollectItem hostEngine (Destroy ''H1'' ''U1'') (RecordValue [])
       = Inr (RecordValue [(''U1'', 1)])
   \<and> map_of [(''U1'', 4 :: nat)] ''U1'' = Some 4
   \<and> (4 :: nat) < 2 ^ 53
   \<and> ScoreState_onCollectItem hostEngine (Destroy ''H1'' ''U1'') (RecordValue [(''U1'', 4)])
       = Inr (RecordValue [(''U1'', 5)])
   \<and> (\<forall>w. currentScore [(''U2'', 7)] w
            + destroysOf w [Destroy ''H1'' ''U2'', spawnH1, Destroy ''H2'' ''U1'', Destroy ''H3'' ''U2'']
          \<le> 2 ^ 53)
   \<and> (\<exists>r'. ScoreState_applyAll hostEngine
              [Destroy ''H1'' ''U2'', spawnH1, Destroy ''H2'' ''U1'', Destroy ''H3'' ''U2'']
              (RecordValue [(''U2'', 7)]) = RecordValue r'
          \<and> currentScore r' ''U2'' = 9)
   \<and> run [(hostEngine, Incoming (Destroy ''H1'' ''U1'')), (hostEngine, Tick)] boundProcess
       = Inr (boundProcess\<lparr>ScoreState_value := RecordValue [(''U1'', 1)]\<rparr>)
   \<and> currentScore (ScoreState boundProcess) ''U1''
       \<le> currentScore
            (ScoreState (boundProcess\<lparr>ScoreState_value := RecordValue [(''U1'', 1)]\<rparr>)) ''U1''
   \<and> currentScore [] ''U1'' = 0"
proof -
  let ?acts = "[Destroy ''H1'' ''U2'', spawnH1, Destroy ''H2'' ''U1'', Destroy ''H3'' ''U2'']"
  let ?evs = "[(hostEngine, Incoming (Destroy ''H1'' ''U1'')), (hostEngine, Tick)]"
  let ?s' = "boundProcess\<lparr>ScoreState_value := RecordValue [(''U1'', 1)]\<rparr>"
  have k: "stateKey hostEngine ''U1'' = Nested" "stateKey hostEngine ''U2'' = Nested"
    by (rule hostEngine_Nested)+
  have a: "map_of [] ''U1'' = (None :: nat option)" by simp
  have b: "map_of [(''U1'', 4 :: nat)] ''U1'' = Some 4" by simp
  have b4: "(4 :: nat) < 2 ^ 53" by simp
  have nest: "\<forall>a \<in> set ?acts. ItemActions_destroy_matches a \<longrightarrow> stateKey hostEngine (userID a) = Nested"
    by (simp add: k ItemActions_destroy_matches_def spawnH1_def)
  have d: "destroysOf w ?acts \<le> 4" for w
  proof -
    have "destroysOf w ?acts \<le> length ?acts"
      unfolding destroysOf_def by (rule length_filter_le)
    then show ?thesis by simp
  qed
  have cs: "currentScore [(''U2'', 7)] w \<le> 7" for w
    by (simp add: currentScore_def)
  have bound: "\<forall>w. currentScore [(''U2'', 7)] w + destroysOf w ?acts \<le> 2 ^ 53"
  proof
    fix w
    have "currentScore [(''U2'', 7)] w + destroysOf w ?acts \<le> 11"
      using d[of w] cs[of w] by linarith
    also have "(11 :: nat) \<le> 2 ^ 53" by simp
    finally show "currentScore [(''U2'', 7)] w + destroysOf w ?acts \<le> 2 ^ 53" .
  qed
  have cnt: "currentScore [(''U2'', 7)] ''U2'' + destroysOf ''U2'' ?acts = 9"
    by (simp add: currentScore_def destroysOf_def ItemActions_destroy_matches_def spawnH1_def)
  have nu: "\<forall>ev \<in> set ?evs. nestedUsers (fst ev) (snd ev)"
    by (simp add: nestedUsers_def k)
  have r: "run ?evs boundProcess = Inr ?s'"
    by (simp add: applyAction_destroy_Nested[OF k(1), of _ "[]"] boundProcess_eq
        execute_item_exists itemQuery_def configure_def)
  note w1 = C4_score_counts_destroys[of hostEngine "''U1''" "[]" "''H1''" 0 ?acts "''U2''" ?evs
      boundProcess ?s' ]
  note w2 = C4_score_counts_destroys[of hostEngine "''U1''" "[(''U1'', 4)]" "''H1''" 4 "[]" "''U1''" "[]"
      boundProcess boundProcess]
  note w3 = C4_score_counts_destroys[of hostEngine "''U2''" "[(''U2'', 7)]" "''H1''" 7 ?acts "''U2''" ?evs
      boundProcess ?s']
  note w4 = C4_score_counts_destroys[of hostEngine "''U1''" "[]" "''H1''" 0 "[]" "''U1''" ?evs
      boundProcess ?s']
  have x1: "ScoreState_onCollectItem hostEngine (Destroy ''H1'' ''U1'') (RecordValue [])
       = Inr (RecordValue [(''U1'', 1)])"
    using w1 k a by simp
  have x2: "ScoreState_onCollectItem hostEngine (Destroy ''H1'' ''U1'') (RecordValue [(''U1'', 4)])
       = Inr (RecordValue [(''U1'', 5)])"
    using w2 k b b4 by simp
  have x3: "\<exists>r'. ScoreState_applyAll hostEngine ?acts (RecordValue [(''U2'', 7)]) = RecordValue r'
          \<and> currentScore r' ''U2'' = 9"
    using w3 nest bound cnt by (metis (no_types, lifting))
  have x4: "currentScore (ScoreState boundProcess) ''U1'' \<le> currentScore (ScoreState ?s') ''U1''"
    using w4 nu r by blast
  have x5: "currentScore [] ''U1'' = 0"
    using w4 a by blast
  from k(1) a x1 b b4 x2 bound x3 r x4 x5 show ?thesis by blast
qed

text \<open>
  C5 as stated fails: on the host, with \<open>''H1''\<close> in \<open>ItemState\<close> and no entity carrying
  the item component, a tick dispatches a spawn action.
\<close>

theorem C5_spawns_although_ItemState_has_item:
  "isHostingWorld hostEngine
   \<and> ItemState spawnedProcess = [(''H1'', ''red'')]
   \<and> ItemSpawnSystem_execute hostEngine spawnedProcess = Inr (dispatchAction spawnH2 spawnedProcess)"
  by (simp add: exec_defs hostEngine_def spawnedProcess_eq itemQuery_def spawnH2_def
      ItemState_def)

text \<open>
  C5, amended. The guard of the spawn system is the query for entities with the item
  component, not \<open>ItemState\<close>: a tick that finds such an entity dispatches nothing and
  changes nothing, and a tick that returns has either changed nothing or, with no such
  entity, dispatched exactly one spawn action.
\<close>

theorem C5_no_spawn_while_item_entity:
  "(itemQuery (ecs s) \<noteq> [] \<longrightarrow> ItemSpawnSystem_execute env s = Inr s)
   \<and> (ItemSpawnSystem_execute env s = Inr s' \<longrightarrow>
        s' = s \<or> (\<exists>a. isSpawn a \<and> itemQuery (ecs s) = [] \<and> s' = dispatchAction a s))"
proof -
  have "isSpawn a" if "ItemActions_spawn_matches env a" for a
    using that by (cases a) (simp_all add: ItemActions_spawn_matches_def isSpawn_def)
  then show ?thesis
    using execute_cases[of env s s'] by (auto simp: execute_item_exists)
qed

theorem C5_no_spawn_while_item_entity_witness:
  "itemQuery (ecs boundProcess) \<noteq> []
   \<and> ItemSpawnSystem_execute hostEngine boundProcess = Inr boundProcess"
proof -
  have h: "itemQuery (ecs boundProcess) \<noteq> []"
    by (simp add: boundProcess_eq itemQuery_def configure_def)
  from C5_no_spawn_while_item_entity[of boundProcess hostEngine boundProcess] h show ?thesis
    by simp
qed

text \<open>
  C6. On a process that does not host, a tick of the spawn system returns the process
  unchanged; and whatever events happen on processes that do not host, the run does not
  fail and the spawn actions among the dispatched actions stay what they were.
\<close>

theorem C6_non_host_never_spawns:
  "(\<not> isHostingWorld env \<longrightarrow> ItemSpawnSystem_execute env s = Inr s)
   \<and> ((\<forall>ev \<in> set evs. \<not> isHostingWorld (fst ev)) \<longrightarrow>
        (\<exists>s'. run evs s = Inr s' \<and> filter isSpawn (actions s') = filter isSpawn (actions s)))"
  using run_spawns[of evs s] by (auto simp: execute_not_hosting)

theorem C6_non_host_never_spawns_witness:
  "\<not> isHostingWorld clientEngine
   \<and> ItemSpawnSystem_execute clientEngine initialProcess = Inr initialProcess
   \<and> (\<exists>s'. run [(clientEngine, Tick), (clientEngine, Incoming spawnH1), (clientEngine, React),
                (clientEngine, Overlap ''H1'' 3 7), (clientEngine, Tick)] initialProcess = Inr s'
          \<and> filter isSpawn (actions s') = filter isSpawn (actions initialProcess))"
proof -
  have h: "\<not> isHostingWorld clientEngine"
    by (simp add: isHostingWorld_def clientEngine_def)
  have a: "\<forall>ev \<in> set [(clientEngine, Tick), (clientEngine, Incoming spawnH1), (clientEngine, React),
        (clientEngine, Overlap ''H1'' 3 7), (clientEngine, Tick)]. \<not> isHostingWorld (fst ev)"
    using h by simp
  from C6_non_host_never_spawns[of clientEngine initialProcess
      "[(clientEngine, Tick), (clientEngine, Incoming spawnH1), (clientEngine, React),
        (clientEngine, Overlap ''H1'' 3 7), (clientEngine, Tick)]"] h a
  show ?thesis by blast
qed

text \<open>
  C7. The claim: a tick that cannot resolve the scene root of the platform is skipped, with
  nothing dispatched and no error. The source returns early when the platform is missing
  and has no check of \<^verbatim>\<open>rootSceneEntity\<close>: with the platform found and no ancestor with a
  scene component, the tick goes on to the action creator with an undefined parent, and
  either dispatches a spawn action without a parent or fails in the creator, as the base
  shape \<open>v\<close> decides.
\<close>

theorem C7_missing_scene_root_not_skipped:
  "platformEntity (rootlessEngine v) = Some 2
   \<and> getAncestorWithSceneComponent (rootlessEngine v) 2 = UndefinedEntity
   \<and> ItemSpawnSystem_execute (rootlessEngine v) initialProcess =
       (if v None
        then Inr (dispatchAction (Spawn None ''H2'' ''red'' (0, 1 / 2, 0) (0, 0, 0, 1))
                   initialProcess)
        else Inl ShapeMismatch)"
  by (simp add: exec_defs engine_defs initialProcess_def itemQuery_def)



text \<open>
  C9. The callback of an item, run for an overlap: when the other entity is not the local
  avatar entity the process is unchanged, so nothing is dispatched; when it is, the one
  change is one destroy action appended to the dispatched actions, carrying the item's
  handle and the local user's identity.
\<close>

theorem C9_collect_bridge:
  "(otherEntity \<noteq> getSelfAvatarEntity env \<longrightarrow>
      onCollectItem env uuid triggerEntity otherEntity s = s)
   \<and> (otherEntity = getSelfAvatarEntity env \<longrightarrow>
      onCollectItem env uuid triggerEntity otherEntity s =
        s\<lparr>actions := actions s @ [Destroy uuid (instance_userID env)]\<rparr>)"
  by (simp add: onCollectItem_def dispatchAction_def ItemActions_destroy_def)

theorem C9_collect_bridge_witness:
  "(5 :: Entity) \<noteq> getSelfAvatarEntity hostEngine
   \<and> onCollectItem hostEngine ''H1'' 3 5 boundProcess = boundProcess
   \<and> 7 = getSelfAvatarEntity hostEngine
   \<and> onCollectItem hostEngine ''H1'' 3 7 boundProcess =
       boundProcess\<lparr>actions := [Destroy ''H1'' ''U1'']\<rparr>"
proof -
  have a: "(5 :: Entity) \<noteq> getSelfAvatarEntity hostEngine"
    and b: "7 = getSelfAvatarEntity hostEngine"
    and c: "instance_userID hostEngine = ''U1''"
    and d: "actions boundProcess = []"
    by (simp_all add: hostEngine_def boundProcess_eq)
  from C9_collect_bridge[of 5 hostEngine "''H1''" 3 boundProcess]
    C9_collect_bridge[of 7 hostEngine "''H1''" 3 boundProcess] a b c d
  show ?thesis by simp
qed

text \<open>
  C10. A spawn action whose colour is not one of \<open>ValidItemColors\<close> matches the shape of no
  receptor: applying it leaves the whole process unchanged, and the step does not fail.
\<close>

theorem C10_invalid_color_rejected:
  assumes "c \<notin> set ValidItemColors"
  shows "applyAction env (Spawn p e c pos rot) s = s
       \<and> step env (Incoming (Spawn p e c pos rot)) s = Inr s"
  using assms
  by (simp add: applyAction_def ItemState_no_match ScoreState_no_match settle_Inr
      ItemActions_spawn_matches_def ItemActions_destroy_matches_def)

theorem C10_invalid_color_rejected_witness:
  "''black'' \<notin> set ValidItemColors
   \<and> applyAction hostEngine (Spawn (Some ''scene'') ''H9'' ''black'' (0, 1 / 2, 0) (0, 0, 0, 1))
       boundProcess = boundProcess
   \<and> step hostEngine (Incoming (Spawn (Some ''scene'') ''H9'' ''black'' (0, 1 / 2, 0) (0, 0, 0, 1)))
       boundProcess = Inr boundProcess"
proof -
  have h: "''black'' \<notin> set ValidItemColors"
    by (simp add: ValidItemColors_def)
  from C10_invalid_color_rejected[OF h] h show ?thesis
    by blast
qed

end
